theory Spec2Isabelle
  imports Complex_Main
begin

section \<open>Health score\<close>

text \<open>
  Python's \<open>int(x)\<close> on a float drops the fractional part, rounding toward zero.
  Percentages are modelled as exact reals; the failed-login count is an unbounded integer.
\<close>

definition py_int :: "real \<Rightarrow> int" where
  "py_int x = (if x < 0 then \<lceil>x\<rceil> else \<lfloor>x\<rfloor>)"

definition calculate_health_score :: "real \<Rightarrow> real \<Rightarrow> real \<Rightarrow> int \<Rightarrow> int" where
  "calculate_health_score cpu_percent ram_percent disk_percent failed_logins =
     (let score = 100;
          score = score - py_int (cpu_percent / 2);
          score = score - py_int (ram_percent / 3);
          score = score - py_int (disk_percent / 4);
          score = (if failed_logins > 0 then score - min 20 (failed_logins * 2) else score);
          score = (if score < 0 then 0 else score);
          score = (if score > 100 then 100 else score)
      in score)"

text \<open>
  The scoring rule as the specification words it: floors of the three quotients, the
  login penalty, and a final clamp to the interval from 0 to 100.
\<close>

definition spec_health_score :: "real \<Rightarrow> real \<Rightarrow> real \<Rightarrow> int \<Rightarrow> int" where
  "spec_health_score cpu ram disk failed =
     max 0 (min 100 (100 - \<lfloor>cpu / 2\<rfloor> - \<lfloor>ram / 3\<rfloor> - \<lfloor>disk / 4\<rfloor>
                      - (if failed > 0 then min 20 (failed * 2) else 0)))"

section \<open>Failed-login count\<close>

text \<open>
  \<open>str.strip()\<close> removes the characters for which \<open>str.isspace()\<close> holds; among the
  code points below 256 these are 9 to 13, 28 to 32, 133 and 160.
\<close>

definition is_space :: "char \<Rightarrow> bool" where
  "is_space c = ((of_char c :: nat) \<in> {9, 10, 11, 12, 13, 28, 29, 30, 31, 32, 133, 160})"

definition py_strip :: "string \<Rightarrow> string" where
  "py_strip s = rev (dropWhile is_space (rev (dropWhile is_space s)))"

definition is_digit :: "char \<Rightarrow> bool" where
  "is_digit c = (48 \<le> (of_char c :: nat) \<and> (of_char c :: nat) \<le> 57)"

definition digit_val :: "char \<Rightarrow> int" where
  "digit_val c = int (of_char c) - 48"

text \<open>
  The digit part of a decimal literal accepted by \<open>int(str)\<close>: digits, with single
  underscores allowed between two digits. \<open>None\<close> stands for \<open>ValueError\<close>.
\<close>

fun digits_acc :: "int \<Rightarrow> string \<Rightarrow> int option" where
  "digits_acc acc [] = Some acc"
| "digits_acc acc [c] = (if is_digit c then Some (acc * 10 + digit_val c) else None)"
| "digits_acc acc (c # d # cs) =
     (if is_digit c then digits_acc (acc * 10 + digit_val c) (d # cs)
      else if c = CHR ''_'' \<and> is_digit d then digits_acc acc (d # cs)
      else None)"

definition unsigned_literal :: "string \<Rightarrow> int option" where
  "unsigned_literal s =
     (case s of [] \<Rightarrow> None
      | c # cs \<Rightarrow> if is_digit c then digits_acc 0 (c # cs) else None)"

definition int_of_str :: "string \<Rightarrow> int option" where
  "int_of_str s =
     (case py_strip s of
        [] \<Rightarrow> None
      | c # cs \<Rightarrow>
          if c = CHR ''-'' then map_option uminus (unsigned_literal cs)
          else if c = CHR ''+'' then unsigned_literal cs
          else unsigned_literal (c # cs))"

text \<open>
  What \<open>subprocess.run\<close> gives back: it raises, or it completes with a return code and
  the captured standard output.
\<close>

datatype completed_process = Raised | Completed (returncode: int) (stdout: string)

record sec_env =
  auth_log_exists :: bool
  grep_run :: completed_process
  journal_run :: completed_process

definition get_security_info :: "sec_env \<Rightarrow> string \<times> int" where
  "get_security_info env =
     (if auth_log_exists env then
        (case grep_run env of
           Raised \<Rightarrow> (''Error parsing auth.log'', 0)
         | Completed rc out \<Rightarrow>
             if rc \<notin> {0, 1} then (''Error reading auth.log'', 0)
             else (case (if py_strip out \<noteq> [] then int_of_str (py_strip out) else Some 0) of
                     None \<Rightarrow> (''Error parsing auth.log'', 0)
                   | Some count \<Rightarrow> (''OK'', count)))
      else
        (case journal_run env of
           Raised \<Rightarrow> (''No auth data available'', 0)
         | Completed rc out \<Rightarrow>
             if rc \<notin> {0, 1} then (''Error reading journal'', 0)
             else (let count_str = py_strip out in
                   case (if count_str \<noteq> [] then int_of_str count_str else Some 0) of
                     None \<Rightarrow> (''No auth data available'', 0)
                   | Some count \<Rightarrow> (''OK'', count))))"

text \<open>
  The three-valued status of the specification, read off the status strings the
  function returns.
\<close>

datatype SecurityStatus = Ok | SourceUnavailable | ReadError

definition security_status :: "string \<Rightarrow> SecurityStatus" where
  "security_status s =
     (if s = ''OK'' then Ok
      else if s = ''No auth data available'' then SourceUnavailable
      else ReadError)"

section \<open>Safety check over the shell history\<close>

text \<open>
  The file system as the two functions see it: which of the two history files exist,
  and what iterating over an opened file yields (\<open>None\<close> when opening or reading raises).
\<close>

record hist_env =
  bash_exists :: bool
  zsh_exists :: bool
  read_lines :: "string \<Rightarrow> string list option"

definition get_history_file :: "hist_env \<Rightarrow> string option" where
  "get_history_file env =
     (if bash_exists env then Some ''~/.bash_history''
      else if zsh_exists env then Some ''~/.zsh_history''
      else None)"

definition dangerous_keywords :: "string list" where
  "dangerous_keywords =
     [''rm -rf /'', ''mkfs'', '':(){ :|:& };:'', ''chmod 777'', ''dd if='']"

text \<open>Python's \<open>bad in line\<close> on strings: \<open>bad\<close> occurs as a contiguous piece of \<open>line\<close>.\<close>

fun is_prefix :: "string \<Rightarrow> string \<Rightarrow> bool" where
  "is_prefix [] ys = True"
| "is_prefix (x # xs) [] = False"
| "is_prefix (x # xs) (y # ys) = (x = y \<and> is_prefix xs ys)"

fun str_in :: "string \<Rightarrow> string \<Rightarrow> bool" where
  "str_in bad [] = (bad = [])"
| "str_in bad (y # ys) = (is_prefix bad (y # ys) \<or> str_in bad ys)"

text \<open>The inner loop over the keywords, for one line.\<close>

fun scan_keywords :: "string list \<Rightarrow> string \<Rightarrow> string option" where
  "scan_keywords [] line = None"
| "scan_keywords (bad # rest) line =
     (if str_in bad line then Some bad else scan_keywords rest line)"

text \<open>The outer loop over the recent lines; it returns at the first hit.\<close>

fun scan_lines :: "string list \<Rightarrow> string option" where
  "scan_lines [] = None"
| "scan_lines (line # rest) =
     (case scan_keywords dangerous_keywords line of
        Some bad \<Rightarrow> Some bad
      | None \<Rightarrow> scan_lines rest)"

definition stripped_lines :: "string list \<Rightarrow> string list" where
  "stripped_lines f = map py_strip (filter (\<lambda>l. py_strip l \<noteq> []) f)"

definition recent_lines :: "string list \<Rightarrow> string list" where
  "recent_lines lines = drop (length lines - 80) lines"

definition get_safety_check :: "hist_env \<Rightarrow> string" where
  "get_safety_check env =
     (case get_history_file env of
        None \<Rightarrow> ''History file not found''
      | Some history_file \<Rightarrow>
          (case read_lines env history_file of
             None \<Rightarrow> ''Error reading history''
           | Some f \<Rightarrow>
               (case scan_lines (recent_lines (stripped_lines f)) of
                  Some bad \<Rightarrow> ''WARNING: Dangerous command found -> '' @ bad
                | None \<Rightarrow> ''No extremely dangerous command found'')))"

section \<open>Sampling state: history buffers and network rates\<close>

text \<open>A \<open>collections.deque\<close> with a maximum length.\<close>

record 'a deque =
  items :: "'a list"
  maxlen :: nat

definition deque_init :: "'a list \<Rightarrow> nat \<Rightarrow> 'a deque" where
  "deque_init xs n = \<lparr>items = drop (length xs - n) xs, maxlen = n\<rparr>"

definition deque_append :: "'a deque \<Rightarrow> 'a \<Rightarrow> 'a deque" where
  "deque_append d v =
     (let ys = items d @ [v] in d\<lparr>items := drop (length ys - maxlen d) ys\<rparr>)"

record net_io =
  bytes_recv :: int
  bytes_sent :: int

record manager =
  history_len :: nat
  cpu_history :: "real deque"
  ram_history :: "real deque"
  net_down_history :: "real deque"
  net_up_history :: "real deque"
  last_net :: net_io
  last_net_time :: real
  net_down :: real
  net_up :: real
  latest_cpu :: "real option"
  latest_ram :: "real option"
  latest_disk :: "real option"

text \<open>The part of the constructor that sets up the sampling state.\<close>

definition init_manager :: "net_io \<Rightarrow> real \<Rightarrow> manager" where
  "init_manager counters now =
     \<lparr>history_len = 60,
      cpu_history = deque_init (replicate 60 0) 60,
      ram_history = deque_init (replicate 60 0) 60,
      net_down_history = deque_init (replicate 60 0) 60,
      net_up_history = deque_init (replicate 60 0) 60,
      last_net = counters,
      last_net_time = now,
      net_down = 0,
      net_up = 0,
      latest_cpu = None,
      latest_ram = None,
      latest_disk = None\<rparr>"

text \<open>What one sampling call reads from the host.\<close>

record host_sample =
  cpu :: real
  ram_percent :: real
  disk_percent :: real
  now :: real
  counters :: net_io

definition elapsed_dt :: "real \<Rightarrow> real \<Rightarrow> real" where
  "elapsed_dt now_t last_t = (if now_t > last_t then now_t - last_t else 1)"

definition update_system_info :: "manager \<Rightarrow> host_sample \<Rightarrow> manager" where
  "update_system_info self h =
     (let dt = elapsed_dt (now h) (last_net_time self);
          down = real_of_int (bytes_recv (counters h) - bytes_recv (last_net self)) / dt / 1024;
          up = real_of_int (bytes_sent (counters h) - bytes_sent (last_net self)) / dt / 1024
      in self\<lparr>net_down := down,
              net_up := up,
              last_net := counters h,
              last_net_time := now h,
              latest_cpu := Some (cpu h),
              latest_ram := Some (ram_percent h),
              latest_disk := Some (disk_percent h),
              cpu_history := deque_append (cpu_history self) (cpu h),
              ram_history := deque_append (ram_history self) (ram_percent h),
              net_down_history := deque_append (net_down_history self) down,
              net_up_history := deque_append (net_up_history self) up\<rparr>)"

text \<open>
  The successive states of a run of sampling calls, one per sample, oldest first; the
  rates pushed into the network buffers are read off these states.
\<close>

fun sampling_run :: "manager \<Rightarrow> host_sample list \<Rightarrow> manager list" where
  "sampling_run self [] = []"
| "sampling_run self (h # hs) =
     update_system_info self h # sampling_run (update_system_info self h) hs"

text \<open>The rate as the specification words it, with a floor \<open>eps\<close> on the elapsed time.\<close>

definition spec_rate :: "real \<Rightarrow> int \<Rightarrow> int \<Rightarrow> real \<Rightarrow> real" where
  "spec_rate eps cur prev elapsed = real_of_int (cur - prev) / max elapsed eps / 1024"

section \<open>The panel refresh: security count and health score\<close>

definition getattr :: "'a option \<Rightarrow> 'a \<Rightarrow> 'a" where
  "getattr field dflt = (case field of Some v \<Rightarrow> v | None \<Rightarrow> dflt)"

definition panel_failed :: "string \<times> int \<Rightarrow> int" where
  "panel_failed r = (case r of (sec_status, failed) \<Rightarrow> if sec_status \<noteq> ''OK'' then 0 else failed)"

definition update_panels_health :: "manager \<Rightarrow> sec_env \<Rightarrow> int" where
  "update_panels_health self env =
     calculate_health_score
       (getattr (latest_cpu self) 0)
       (getattr (latest_ram self) 0)
       (getattr (latest_disk self) 0)
       (panel_failed (get_security_info env))"

section \<open>Properties of the health score\<close>

lemma py_int_mono: "x \<le> y \<Longrightarrow> py_int x \<le> py_int y"
  unfolding py_int_def
  by (auto intro: floor_mono ceiling_mono) (smt (verit) ceiling_le_zero zero_le_floor)

lemma py_int_nonneg: "0 \<le> x \<Longrightarrow> py_int x = \<lfloor>x\<rfloor>"
  by (simp add: py_int_def)

lemma health_score_closed_form:
  "calculate_health_score c r d f =
     max 0 (min 100 (100 - py_int (c / 2) - py_int (r / 3) - py_int (d / 4)
                      - (if f > 0 then min 20 (f * 2) else 0)))"
  by (simp add: calculate_health_score_def Let_def max_def min_def)

lemma penalty_mono:
  "(f::int) \<le> f' \<Longrightarrow>
     (if f > 0 then min 20 (f * 2) else 0) \<le> (if f' > 0 then min 20 (f' * 2) else 0)"
  by auto

lemma clamp_antimono:
  "(a::int) \<le> a' \<Longrightarrow> max 0 (min 100 (100 - a')) \<le> max 0 (min 100 (100 - a))"
  by linarith

lemma health_score_mono_joint:
  assumes "c \<le> c'" and "r \<le> r'" and "d \<le> d'" and "f \<le> f'"
  shows "calculate_health_score c' r' d' f' \<le> calculate_health_score c r d f"
proof -
  define p where "p = (if f > 0 then min 20 (f * 2) else 0)"
  define p' where "p' = (if f' > 0 then min 20 (f' * 2) else 0)"
  have cpu_le: "py_int (c / 2) \<le> py_int (c' / 2)"
    using assms(1) by (intro py_int_mono) simp
  have ram_le: "py_int (r / 3) \<le> py_int (r' / 3)"
    using assms(2) by (intro py_int_mono) simp
  have disk_le: "py_int (d / 4) \<le> py_int (d' / 4)"
    using assms(3) by (intro py_int_mono) simp
  have pen_le: "p \<le> p'"
    unfolding p_def p'_def using assms(4) by (intro penalty_mono)
  have total_le: "py_int (c / 2) + py_int (r / 3) + py_int (d / 4) + p
      \<le> py_int (c' / 2) + py_int (r' / 3) + py_int (d' / 4) + p'"
    using cpu_le ram_le disk_le pen_le by linarith
  have lo: "calculate_health_score c r d f =
      max 0 (min 100 (100 - (py_int (c / 2) + py_int (r / 3) + py_int (d / 4) + p)))"
    unfolding health_score_closed_form p_def by (simp add: algebra_simps)
  have hi: "calculate_health_score c' r' d' f' =
      max 0 (min 100 (100 - (py_int (c' / 2) + py_int (r' / 3) + py_int (d' / 4) + p')))"
    unfolding health_score_closed_form p'_def by (simp add: algebra_simps)
  show ?thesis
    unfolding lo hi by (rule clamp_antimono [OF total_le])
qed

text \<open>
  C1. Whatever the four inputs are, negative or beyond 100 included, the score returned
  by \<open>calculate_health_score\<close> lies between 0 and 100.
\<close>

theorem health_score_in_range:
  "0 \<le> calculate_health_score c r d f
   \<and> calculate_health_score c r d f \<le> 100"
  by (simp add: calculate_health_score_def Let_def)

theorem health_score_in_range_witness:
  "calculate_health_score 150 (- 10) 500 1000 = 0
   \<and> 0 \<le> calculate_health_score 150 (- 10) 500 1000
   \<and> calculate_health_score 150 (- 10) 500 1000 \<le> 100"
  using health_score_in_range [of 150 "- 10" 500 1000]
  by (simp add: calculate_health_score_def Let_def py_int_def)

text \<open>
  C3, as stated, fails: with a negative percentage the code truncates the quotient toward
  zero where the claim floors it. At cpu -3 and ram 30 the code returns 91, the floor
  formula 92.
\<close>

theorem health_score_floor_counterexample:
  "calculate_health_score (- 3) 30 0 0 = 91 \<and> spec_health_score (- 3) 30 0 0 = 92"
  by (simp add: calculate_health_score_def spec_health_score_def Let_def py_int_def)

text \<open>
  C3, amended. For non-negative cpu, ram and disk percentages the score is exactly 100
  minus the three floors, minus min(20, 2 * failed_logins) when failed_logins is
  positive, clamped to 0..100; the inputs (0, 0, 0, 0) give 100 and (100, 99, 100, 5)
  give 0.
\<close>

theorem health_score_floor_formula:
  "(0 \<le> c \<and> 0 \<le> r \<and> 0 \<le> d \<longrightarrow>
      calculate_health_score c r d f =
      spec_health_score c r d f)
   \<and> calculate_health_score 0 0 0 0 = 100
   \<and> calculate_health_score 100 99 100 5 = 0"
  by (simp add: health_score_closed_form spec_health_score_def py_int_nonneg)

theorem health_score_floor_formula_witness:
  "(0::real) \<le> 37 \<and> (0::real) \<le> 50 \<and> (0::real) \<le> 81
   \<and> calculate_health_score 37 50 81 3 = spec_health_score 37 50 81 3
   \<and> spec_health_score 37 50 81 3 = 40"
  using health_score_floor_formula [of 37 50 81 3]
  by (simp add: spec_health_score_def)

text \<open>
  C9. Raising any one of the four inputs while the other three stay fixed never raises
  the score.
\<close>

theorem health_score_monotone:
  "(c \<le> c' \<longrightarrow> calculate_health_score c' r d f \<le> calculate_health_score c r d f)
   \<and> (r \<le> r' \<longrightarrow> calculate_health_score c r' d f \<le> calculate_health_score c r d f)
   \<and> (d \<le> d' \<longrightarrow> calculate_health_score c r d' f \<le> calculate_health_score c r d f)
   \<and> (f \<le> f' \<longrightarrow> calculate_health_score c r d f' \<le> calculate_health_score c r d f)"
  by (simp add: health_score_mono_joint)

theorem health_score_monotone_witness:
  "(10::real) \<le> 21 \<and> calculate_health_score 21 30 40 2 \<le> calculate_health_score 10 30 40 2
   \<and> (30::real) \<le> 47 \<and> calculate_health_score 10 47 40 2 \<le> calculate_health_score 10 30 40 2
   \<and> (40::real) \<le> 90 \<and> calculate_health_score 10 30 90 2 \<le> calculate_health_score 10 30 40 2
   \<and> (2::int) \<le> 7 \<and> calculate_health_score 10 30 40 7 \<le> calculate_health_score 10 30 40 2"
  using health_score_monotone [of 10 21 30 40 2 47 90 7]
  by simp

section \<open>Properties of the failed-login count\<close>

lemma digit_val_nonneg: "is_digit c \<Longrightarrow> 0 \<le> digit_val c"
  by (simp add: is_digit_def digit_val_def)

lemma digits_acc_nonneg: "digits_acc acc s = Some n \<Longrightarrow> 0 \<le> acc \<Longrightarrow> 0 \<le> n"
proof (induction acc s rule: digits_acc.induct)
  case (1 acc)
  then show ?case by simp
next
  case (2 acc c)
  then show ?case
    using digit_val_nonneg [of c] by (auto split: if_splits)
next
  case (3 acc c d cs)
  then show ?case
    using digit_val_nonneg [of c] by (auto split: if_splits)
qed

lemma unsigned_literal_nonneg: "unsigned_literal s = Some n \<Longrightarrow> 0 \<le> n"
  unfolding unsigned_literal_def
  by (cases s) (auto split: if_splits dest: digits_acc_nonneg)

text \<open>Stripping an already stripped string changes nothing.\<close>

lemma py_strip_idem: "py_strip (py_strip s) = py_strip s"
proof -
  define t where "t = dropWhile is_space s"
  define u where "u = rev (dropWhile is_space (rev t))"
  have su: "py_strip s = u"
    by (simp add: py_strip_def t_def u_def)
  have t_split: "t = u @ rev (takeWhile is_space (rev t))"
    unfolding u_def by (metis rev_append rev_rev_ident takeWhile_dropWhile_id)
  have front: "dropWhile is_space u = u"
  proof (cases u)
    case Nil
    then show ?thesis by simp
  next
    case (Cons a as)
    with t_split obtain w where "t = a # (as @ w)"
      by (metis append_Cons)
    then have "t \<noteq> []" and "hd t = a"
      by simp_all
    moreover from \<open>t \<noteq> []\<close> have "\<not> is_space (hd t)"
      unfolding t_def by (rule hd_dropWhile)
    ultimately show ?thesis
      using Cons by simp
  qed
  have rear: "dropWhile is_space (rev u) = rev u"
    by (simp add: u_def)
  show ?thesis
    unfolding su by (simp add: py_strip_def front rear)
qed

lemma int_of_str_nonneg:
  assumes "int_of_str s = Some n" and "\<And>rest. py_strip s \<noteq> CHR ''-'' # rest"
  shows "0 \<le> n"
proof (cases "py_strip s")
  case Nil
  with assms(1) show ?thesis by (simp add: int_of_str_def)
next
  case (Cons c cs)
  with assms(2) have "c \<noteq> CHR ''-''" by auto
  with assms(1) Cons show ?thesis
    by (auto simp: int_of_str_def split: if_splits dest: unsigned_literal_nonneg)
qed

lemma stripped_count_nonneg:
  assumes "(if py_strip out \<noteq> [] then int_of_str (py_strip out) else Some 0) = Some n"
    and "\<And>rest. py_strip out \<noteq> CHR ''-'' # rest"
  shows "0 \<le> n"
proof (cases "py_strip out = []")
  case True
  with assms(1) show ?thesis by simp
next
  case False
  with assms(1) have "int_of_str (py_strip out) = Some n" by simp
  then show ?thesis
    by (rule int_of_str_nonneg) (simp add: py_strip_idem assms(2))
qed

lemma security_status_Ok_iff: "security_status s = Ok \<longleftrightarrow> s = ''OK''"
  by (simp add: security_status_def)

lemma non_ok_returns_zero:
  "fst (get_security_info env) \<noteq> ''OK'' \<Longrightarrow> snd (get_security_info env) = 0"
  by (auto simp: get_security_info_def Let_def
      split: if_splits completed_process.splits option.splits)

lemmas parse_simps =
  int_of_str_def unsigned_literal_def py_strip_def is_space_def is_digit_def digit_val_def





text \<open>
  C5. Whenever the status of a cycle is not Ok, the count \<open>get_security_info\<close> returns
  is 0, and the panel refresh computes the health score with a failed-login count of 0;
  the refresh forces the count to 0 for any status string other than "OK", whatever
  count came with it.
\<close>

theorem non_ok_count_zero:
  "(security_status (fst (get_security_info env)) \<noteq> Ok \<longrightarrow>
      snd (get_security_info env) = 0
      \<and> update_panels_health self env =
          calculate_health_score (getattr (latest_cpu self) 0) (getattr (latest_ram self) 0)
            (getattr (latest_disk self) 0) 0)
   \<and> (security_status sec_status \<noteq> Ok \<longrightarrow> panel_failed (sec_status, failed) = 0)"
  by (auto simp: security_status_Ok_iff update_panels_health_def panel_failed_def
      non_ok_returns_zero split: prod.splits)

theorem non_ok_count_zero_witness:
  "security_status (fst (get_security_info
      \<lparr>auth_log_exists = True, grep_run = Completed 2 ''7'', journal_run = Raised\<rparr>)) \<noteq> Ok
   \<and> snd (get_security_info
      \<lparr>auth_log_exists = True, grep_run = Completed 2 ''7'', journal_run = Raised\<rparr>) = 0
   \<and> update_panels_health (init_manager \<lparr>bytes_recv = 0, bytes_sent = 0\<rparr> 0)
      \<lparr>auth_log_exists = True, grep_run = Completed 2 ''7'', journal_run = Raised\<rparr> = 100
   \<and> security_status ''Error reading journal'' \<noteq> Ok
   \<and> panel_failed (''Error reading journal'', 9) = 0"
  using non_ok_count_zero
      [of "\<lparr>auth_log_exists = True, grep_run = Completed 2 ''7'', journal_run = Raised\<rparr>"
          "init_manager \<lparr>bytes_recv = 0, bytes_sent = 0\<rparr> 0" "''Error reading journal''" 9]
  by (simp add: get_security_info_def security_status_def init_manager_def getattr_def
      calculate_health_score_def py_int_def)

text \<open>
  C10, as stated, fails: the count is whatever \<open>int\<close> reads from the output, and an
  output of "-5" with exit code 0 gives the count -5 under status "OK".
\<close>

theorem count_negative_counterexample:
  "get_security_info
     \<lparr>auth_log_exists = True, grep_run = Completed 0 ''-5'', journal_run = Raised\<rparr>
   = (''OK'', - 5)"
  by (simp add: get_security_info_def parse_simps)

text \<open>
  C10, amended. The count returned by \<open>get_security_info\<close> is never negative for any
  exit code and any output text that, once stripped of surrounding whitespace, does
  not begin with a minus sign.
\<close>

theorem count_nonneg_unsigned:
  assumes "\<And>rc out rest.
      (if auth_log_exists env then grep_run env else journal_run env) = Completed rc out
        \<Longrightarrow> py_strip out \<noteq> CHR ''-'' # rest"
  shows "0 \<le> snd (get_security_info env)"
proof (cases "if auth_log_exists env then grep_run env else journal_run env")
  case Raised
  then show ?thesis
    by (auto simp: get_security_info_def split: if_splits)
next
  case (Completed rc out)
  with assms have unsigned: "\<And>rest. py_strip out \<noteq> CHR ''-'' # rest"
    by blast
  show ?thesis
  proof (cases "if py_strip out \<noteq> [] then int_of_str (py_strip out) else Some 0")
    case None
    with Completed show ?thesis
      by (auto simp: get_security_info_def Let_def split: if_splits)
  next
    case (Some n)
    then have "0 \<le> n"
      using unsigned by (rule stripped_count_nonneg)
    with Some Completed show ?thesis
      by (auto simp: get_security_info_def Let_def split: if_splits)
  qed
qed

theorem count_nonneg_unsigned_witness:
  "py_strip [CHR ''4'', CHR ''2'', CHR 0x0A] = ''42''
   \<and> get_security_info
       \<lparr>auth_log_exists = True, grep_run = Completed 0 [CHR ''4'', CHR ''2'', CHR 0x0A],
        journal_run = Raised\<rparr> = (''OK'', 42)
   \<and> 0 \<le> snd (get_security_info
       \<lparr>auth_log_exists = True, grep_run = Completed 0 [CHR ''4'', CHR ''2'', CHR 0x0A],
        journal_run = Raised\<rparr>)"
  using count_nonneg_unsigned
      [of "\<lparr>auth_log_exists = True, grep_run = Completed 0 [CHR ''4'', CHR ''2'', CHR 0x0A],
            journal_run = Raised\<rparr>"]
  by (simp add: get_security_info_def parse_simps)

section \<open>Properties of the safety check\<close>

text \<open>\<open>str_in\<close> is the substring relation.\<close>

lemma is_prefix_iff: "is_prefix xs ys \<longleftrightarrow> (\<exists>ss. ys = xs @ ss)"
  by (induction xs ys rule: is_prefix.induct) auto

lemma str_in_iff: "str_in bad line \<longleftrightarrow> (\<exists>ps ss. line = ps @ bad @ ss)"
proof (induction line)
  case Nil
  then show ?case by auto
next
  case (Cons y ys)
  show ?case
  proof
    assume "str_in bad (y # ys)"
    then consider "is_prefix bad (y # ys)" | "str_in bad ys" by auto
    then show "\<exists>ps ss. y # ys = ps @ bad @ ss"
    proof cases
      case 1
      then obtain ss where "y # ys = bad @ ss" by (auto simp: is_prefix_iff)
      then have "y # ys = [] @ bad @ ss" by simp
      then show ?thesis by blast
    next
      case 2
      with Cons obtain ps ss where "ys = ps @ bad @ ss" by blast
      then have "y # ys = (y # ps) @ bad @ ss" by simp
      then show ?thesis by blast
    qed
  next
    assume "\<exists>ps ss. y # ys = ps @ bad @ ss"
    then obtain ps ss where e: "y # ys = ps @ bad @ ss" by blast
    show "str_in bad (y # ys)"
    proof (cases ps)
      case Nil
      with e have "is_prefix bad (y # ys)" by (auto simp: is_prefix_iff)
      then show ?thesis by simp
    next
      case (Cons p ps')
      with e have "ys = ps' @ bad @ ss" by simp
      with Cons.IH have "str_in bad ys" by blast
      then show ?thesis by simp
    qed
  qed
qed

lemma scan_keywords_None: "scan_keywords kws line = None \<longleftrightarrow> (\<forall>bad\<in>set kws. \<not> str_in bad line)"
  by (induction kws) auto

lemma scan_keywords_first:
  "k < length kws \<Longrightarrow> str_in (kws ! k) line \<Longrightarrow> (\<forall>m<k. \<not> str_in (kws ! m) line)
     \<Longrightarrow> scan_keywords kws line = Some (kws ! k)"
proof (induction kws arbitrary: k)
  case Nil
  then show ?case by simp
next
  case (Cons a kws)
  show ?case
  proof (cases k)
    case 0
    with Cons.prems show ?thesis by simp
  next
    case (Suc k')
    with Cons.prems have "\<not> str_in a line" by auto
    moreover have "scan_keywords kws line = Some (kws ! k')"
      using Cons.prems Suc by (intro Cons.IH) auto
    ultimately show ?thesis using Suc by simp
  qed
qed

lemma scan_lines_None:
  "scan_lines ls = None \<longleftrightarrow> (\<forall>l\<in>set ls. \<forall>bad\<in>set dangerous_keywords. \<not> str_in bad l)"
proof (induction ls)
  case Nil
  then show ?case by simp
next
  case (Cons l ls)
  have here: "scan_keywords dangerous_keywords l = None
      \<longleftrightarrow> (\<forall>bad\<in>set dangerous_keywords. \<not> str_in bad l)"
    by (rule scan_keywords_None)
  show ?case
  proof (cases "scan_keywords dangerous_keywords l")
    case None
    with here Cons show ?thesis by simp
  next
    case (Some bad)
    with here have "\<exists>bad\<in>set dangerous_keywords. str_in bad l" by simp
    with Some show ?thesis by auto
  qed
qed

lemma scan_lines_first:
  "i < length ls \<Longrightarrow> (\<forall>j<i. scan_keywords dangerous_keywords (ls ! j) = None)
     \<Longrightarrow> scan_keywords dangerous_keywords (ls ! i) = Some bad
     \<Longrightarrow> scan_lines ls = Some bad"
proof (induction ls arbitrary: i)
  case Nil
  then show ?case by simp
next
  case (Cons l ls)
  show ?case
  proof (cases i)
    case 0
    with Cons.prems show ?thesis by simp
  next
    case (Suc i')
    with Cons.prems have "scan_keywords dangerous_keywords l = None" by auto
    moreover have "scan_lines ls = Some bad"
      using Cons.prems Suc by (intro Cons.IH[of i']) auto
    ultimately show ?thesis by simp
  qed
qed

text \<open>A line is blank when all its characters are white space.\<close>

lemma py_strip_empty_iff: "py_strip l = [] \<longleftrightarrow> (\<forall>c\<in>set l. is_space c)"
  by (simp add: py_strip_def dropWhile_eq_Nil_conv) (metis dropWhile_eq_Nil_conv set_dropWhileD hd_dropWhile list.set_sel(1))

lemma py_strip_split:
  "\<exists>pre post. l = pre @ py_strip l @ post"
proof -
  define t where "t = dropWhile is_space l"
  have "l = takeWhile is_space l @ t"
    by (simp add: t_def)
  moreover have "t = py_strip l @ rev (takeWhile is_space (rev t))"
    unfolding py_strip_def t_def [symmetric]
    by (metis rev_append rev_rev_ident takeWhile_dropWhile_id)
  ultimately show ?thesis
    by metis
qed

text \<open>
  Every keyword begins and ends with a character that is not white space, so it occurs
  in a line exactly when it occurs in the stripped line.
\<close>

lemma dropWhile_keeps:
  "bad \<noteq> [] \<Longrightarrow> \<not> P (hd bad) \<Longrightarrow> \<exists>ps'. dropWhile P (ps @ bad @ ss) = ps' @ bad @ ss"
proof (induction ps)
  case Nil
  then have "dropWhile P (bad @ ss) = [] @ bad @ ss"
    by (cases bad) simp_all
  then show ?case by (metis append_Nil)
next
  case (Cons p ps)
  show ?case
  proof (cases "P p")
    case True
    with Cons show ?thesis by simp
  next
    case False
    then have "dropWhile P ((p # ps) @ bad @ ss) = (p # ps) @ bad @ ss" by simp
    then show ?thesis by blast
  qed
qed

lemma str_in_strip:
  assumes "bad \<noteq> []" and "\<not> is_space (hd bad)" and "\<not> is_space (last bad)"
  shows "str_in bad (py_strip l) \<longleftrightarrow> str_in bad l"
proof
  assume "str_in bad (py_strip l)"
  then obtain a b where "py_strip l = a @ bad @ b"
    by (auto simp: str_in_iff)
  moreover obtain pre post where "l = pre @ py_strip l @ post"
    using py_strip_split by blast
  ultimately have "l = (pre @ a) @ bad @ (b @ post)"
    by simp
  then show "str_in bad l"
    unfolding str_in_iff by blast
next
  assume "str_in bad l"
  then obtain ps ss where l: "l = ps @ bad @ ss"
    by (auto simp: str_in_iff)
  obtain ps' where front: "dropWhile is_space l = ps' @ bad @ ss"
    unfolding l using dropWhile_keeps [of bad is_space ps ss] assms(1,2) by blast
  have "rev bad \<noteq> []" and "\<not> is_space (hd (rev bad))"
    using assms(1,3) by (simp_all add: hd_rev)
  then obtain ss' where "dropWhile is_space (rev ss @ rev bad @ rev ps') = ss' @ rev bad @ rev ps'"
    using dropWhile_keeps [of "rev bad" is_space "rev ss" "rev ps'"] by blast
  then have "py_strip l = ps' @ bad @ rev ss'"
    by (simp add: py_strip_def front)
  then show "str_in bad (py_strip l)"
    unfolding str_in_iff by blast
qed

lemma keywords_edges:
  "bad \<in> set dangerous_keywords \<Longrightarrow> bad \<noteq> [] \<and> \<not> is_space (hd bad) \<and> \<not> is_space (last bad)"
  by (auto simp: dangerous_keywords_def is_space_def)

lemma scan_keywords_cong:
  "(\<And>bad. bad \<in> set kws \<Longrightarrow> str_in bad l = str_in bad l') \<Longrightarrow> scan_keywords kws l = scan_keywords kws l'"
  by (induction kws) simp_all

lemma scan_keywords_strip:
  "scan_keywords dangerous_keywords (py_strip l) = scan_keywords dangerous_keywords l"
  by (rule scan_keywords_cong) (simp add: str_in_strip keywords_edges)

lemma scan_lines_strip: "scan_lines (map py_strip ls) = scan_lines ls"
  by (induction ls) (simp_all add: scan_keywords_strip split: option.splits)

lemma window_raw:
  "recent_lines (stripped_lines f)
     = map py_strip (drop (length (filter (\<lambda>l. \<exists>c\<in>set l. \<not> is_space c) f) - 80)
         (filter (\<lambda>l. \<exists>c\<in>set l. \<not> is_space c) f))"
  by (simp add: recent_lines_def stripped_lines_def py_strip_empty_iff drop_map)

text \<open>
  C6. When a history file exists and is read, \<open>get_safety_check\<close> looks at the last 80
  of the file's non-blank lines, oldest first, with the keywords "rm -rf /", "mkfs",
  ":(){ :|:& };:", "chmod 777", "dd if=" in this order. It returns the all-clear
  message exactly when no line of that window contains a keyword; otherwise, for the
  earliest line of the window that contains one, it reports the first keyword of the
  list that occurs in that line. With "mkfs /dev/sda" at position 10 and
  "chmod 777 /etc" at position 40 of the window the report names "mkfs".
\<close>

theorem safety_check_first_match:
  assumes "bash_exists env \<or> zsh_exists env"
    and "read_lines env (if bash_exists env then ''~/.bash_history'' else ''~/.zsh_history'')
           = Some f"
    and "nonblank = filter (\<lambda>l. \<exists>c\<in>set l. \<not> is_space c) f"
    and "window = drop (length nonblank - 80) nonblank"
    and "patterns = [''rm -rf /'', ''mkfs'', '':(){ :|:& };:'', ''chmod 777'', ''dd if='']"
  shows "length window = min 80 (length nonblank)
    \<and> (get_safety_check env = ''No extremely dangerous command found''
        \<longleftrightarrow> (\<forall>l\<in>set window. \<forall>bad\<in>set patterns. \<not> (\<exists>ps ss. l = ps @ bad @ ss)))
    \<and> (\<forall>i k. i < length window \<and> k < length patterns
          \<and> (\<forall>j<i. \<forall>bad\<in>set patterns. \<not> (\<exists>ps ss. window ! j = ps @ bad @ ss))
          \<and> (\<exists>ps ss. window ! i = ps @ patterns ! k @ ss)
          \<and> (\<forall>m<k. \<not> (\<exists>ps ss. window ! i = ps @ patterns ! m @ ss))
        \<longrightarrow> get_safety_check env
              = ''WARNING: Dangerous command found -> '' @ patterns ! k)"
proof -
  have pats: "patterns = dangerous_keywords"
    by (simp add: assms(5) dangerous_keywords_def)
  have located: "get_history_file env
      = Some (if bash_exists env then ''~/.bash_history'' else ''~/.zsh_history'')"
    using assms(1) by (auto simp: get_history_file_def)
  have scanned: "scan_lines (recent_lines (stripped_lines f)) = scan_lines window"
    unfolding window_raw assms(3) [symmetric] assms(4) [symmetric] by (rule scan_lines_strip)
  have result: "get_safety_check env =
      (case scan_lines window of
         Some bad \<Rightarrow> ''WARNING: Dangerous command found -> '' @ bad
       | None \<Rightarrow> ''No extremely dangerous command found'')"
    by (simp add: get_safety_check_def located assms(2) scanned)
  have size: "length window = min 80 (length nonblank)"
    unfolding assms(4) by simp
  have clear: "get_safety_check env = ''No extremely dangerous command found''
      \<longleftrightarrow> (\<forall>l\<in>set window. \<forall>bad\<in>set patterns. \<not> (\<exists>ps ss. l = ps @ bad @ ss))"
  proof (cases "scan_lines window")
    case None
    have "get_safety_check env = ''No extremely dangerous command found''"
      unfolding result None by simp
    moreover have "\<forall>l\<in>set window. \<forall>bad\<in>set dangerous_keywords. \<not> str_in bad l"
      by (rule iffD1 [OF scan_lines_None None])
    ultimately show ?thesis
      by (simp add: str_in_iff pats)
  next
    case (Some bad)
    have "get_safety_check env \<noteq> ''No extremely dangerous command found''"
      unfolding result Some by simp
    moreover have "\<not> (\<forall>l\<in>set window. \<forall>bad\<in>set dangerous_keywords. \<not> str_in bad l)"
      using scan_lines_None [of window] Some by simp
    ultimately show ?thesis
      by (simp add: str_in_iff pats)
  qed
  have hit: "get_safety_check env
      = ''WARNING: Dangerous command found -> '' @ patterns ! k"
    if "i < length window" and "k < length patterns"
      and "\<forall>j<i. \<forall>bad\<in>set patterns. \<not> (\<exists>ps ss. window ! j = ps @ bad @ ss)"
      and "\<exists>ps ss. window ! i = ps @ patterns ! k @ ss"
      and "\<forall>m<k. \<not> (\<exists>ps ss. window ! i = ps @ patterns ! m @ ss)"
    for i k
  proof -
    have "\<forall>j<i. scan_keywords dangerous_keywords (window ! j) = None"
      using that(3) by (simp add: scan_keywords_None str_in_iff pats)
    moreover have "scan_keywords dangerous_keywords (window ! i)
        = Some (dangerous_keywords ! k)"
      using that(2,4,5) unfolding pats by (intro scan_keywords_first) (simp_all add: str_in_iff)
    ultimately have "scan_lines window = Some (dangerous_keywords ! k)"
      using that(1) by (intro scan_lines_first [of i]) simp_all
    then show ?thesis
      using result by (simp add: pats)
  qed
  show ?thesis
    using size clear hit by blast
qed

theorem safety_check_first_match_witness:
  "drop (length (filter (\<lambda>l. \<exists>c\<in>set l. \<not> is_space c) ([''dd if=/dev/zero of=/dev/sda''] @ replicate 10 ''ls'' @ [''mkfs /dev/sda'', ''   '']
          @ replicate 29 ''cd ..'' @ [''chmod 777 /etc'', '' ''] @ replicate 39 ''pwd'')) - 80) (filter (\<lambda>l. \<exists>c\<in>set l. \<not> is_space c) ([''dd if=/dev/zero of=/dev/sda''] @ replicate 10 ''ls'' @ [''mkfs /dev/sda'', ''   '']
          @ replicate 29 ''cd ..'' @ [''chmod 777 /etc'', '' ''] @ replicate 39 ''pwd'')) ! 10 = ''mkfs /dev/sda''
   \<and> drop (length (filter (\<lambda>l. \<exists>c\<in>set l. \<not> is_space c) ([''dd if=/dev/zero of=/dev/sda''] @ replicate 10 ''ls'' @ [''mkfs /dev/sda'', ''   '']
          @ replicate 29 ''cd ..'' @ [''chmod 777 /etc'', '' ''] @ replicate 39 ''pwd'')) - 80) (filter (\<lambda>l. \<exists>c\<in>set l. \<not> is_space c) ([''dd if=/dev/zero of=/dev/sda''] @ replicate 10 ''ls'' @ [''mkfs /dev/sda'', ''   '']
          @ replicate 29 ''cd ..'' @ [''chmod 777 /etc'', '' ''] @ replicate 39 ''pwd'')) ! 40 = ''chmod 777 /etc''
   \<and> get_safety_check
     \<lparr>bash_exists = False, zsh_exists = True, read_lines = (\<lambda>p. Some ([''dd if=/dev/zero of=/dev/sda''] @ replicate 10 ''ls'' @ [''mkfs /dev/sda'', ''   '']
          @ replicate 29 ''cd ..'' @ [''chmod 777 /etc'', '' ''] @ replicate 39 ''pwd''))\<rparr>
     = ''WARNING: Dangerous command found -> mkfs''"
proof -
  define F where "F = [''dd if=/dev/zero of=/dev/sda''] @ replicate 10 ''ls'' @ [''mkfs /dev/sda'', ''   '']
          @ replicate 29 ''cd ..'' @ [''chmod 777 /etc'', '' ''] @ replicate 39 ''pwd''"
  define env where "env = \<lparr>bash_exists = False, zsh_exists = True, read_lines = (\<lambda>p. Some F)\<rparr>"
  define NB where "NB = filter (\<lambda>l. \<exists>c\<in>set l. \<not> is_space c) F"
  define W where "W = drop (length NB - 80) NB"
  define pats where
    "pats = [''rm -rf /'', ''mkfs'', '':(){ :|:& };:'', ''chmod 777'', ''dd if='']"
  have found: "bash_exists env \<or> zsh_exists env"
    by (simp add: env_def)
  have opened: "read_lines env (if bash_exists env then ''~/.bash_history''
      else ''~/.zsh_history'') = Some F"
    by (simp add: env_def)
  have window: "W = replicate 10 ''ls'' @ [''mkfs /dev/sda''] @ replicate 29 ''cd ..''
      @ [''chmod 777 /etc''] @ replicate 39 ''pwd''"
    unfolding W_def NB_def F_def by code_simp
  have at10: "W ! 10 = ''mkfs /dev/sda''"
    unfolding window by code_simp
  have at40: "W ! 40 = ''chmod 777 /etc''"
    unfolding window by code_simp
  have before: "\<forall>j<10. W ! j = ''ls''"
    unfolding window by (simp add: nth_append)
  have harmless: "\<forall>bad\<in>set pats. \<not> str_in bad ''ls''"
    by (simp add: pats_def)
  have conds: "10 < length W \<and> 1 < length pats
          \<and> (\<forall>j<10. \<forall>bad\<in>set pats. \<not> (\<exists>ps ss. W ! j = ps @ bad @ ss))
          \<and> (\<exists>ps ss. W ! 10 = ps @ pats ! 1 @ ss)
          \<and> (\<forall>m<1. \<not> (\<exists>ps ss. W ! 10 = ps @ pats ! m @ ss))"
    unfolding str_in_iff [symmetric] at10
    using before harmless by (simp add: window pats_def)
  note main = safety_check_first_match [OF found opened NB_def W_def pats_def]
  have "get_safety_check env = ''WARNING: Dangerous command found -> '' @ pats ! 1"
    by (rule main [THEN conjunct2, THEN conjunct2, rule_format, OF conds])
  then have hit: "get_safety_check env = ''WARNING: Dangerous command found -> mkfs''"
    by (simp add: pats_def)
  have "W ! 10 = ''mkfs /dev/sda'' \<and> W ! 40 = ''chmod 777 /etc''
      \<and> get_safety_check env = ''WARNING: Dangerous command found -> mkfs''"
    using at10 at40 hit by (intro conjI)
  then show ?thesis
    unfolding env_def W_def NB_def F_def .
qed

section \<open>Properties of the history buffers and network rates\<close>

lemma deque_append_maxlen: "maxlen (deque_append d v) = maxlen d"
  by (simp add: deque_append_def Let_def)

lemma foldl_deque_maxlen: "maxlen (foldl deque_append d vs) = maxlen d"
  by (induction vs arbitrary: d) (simp_all add: deque_append_maxlen)

lemma drop_window_snoc:
  "drop (length (drop (length xs - n) xs @ [v]) - n) (drop (length xs - n) xs @ [v])
     = drop (length (xs @ [v]) - n) (xs @ [v])"
proof (cases "length xs \<le> n")
  case True
  then show ?thesis by simp
next
  case False
  then have "Suc (length xs) - n = Suc (length xs - n)" by simp
  with False show ?thesis by simp
qed

lemma foldl_deque_items:
  "length (items d) \<le> maxlen d \<Longrightarrow> items (foldl deque_append d vs)
     = drop (length (items d @ vs) - maxlen d) (items d @ vs)"
proof (induction vs rule: rev_induct)
  case Nil
  then show ?case by simp
next
  case (snoc v vs)
  have "items (foldl deque_append d (vs @ [v]))
      = drop (length (items (foldl deque_append d vs) @ [v]) - maxlen d)
          (items (foldl deque_append d vs) @ [v])"
    by (simp add: deque_append_def Let_def foldl_deque_maxlen)
  also have "\<dots> = drop (length ((items d @ vs) @ [v]) - maxlen d) ((items d @ vs) @ [v])"
    unfolding snoc.IH [OF snoc.prems] by (rule drop_window_snoc)
  finally show ?case by simp
qed

lemma history_buffer_items:
  "items (foldl deque_append (deque_init (replicate 60 0) 60) vs)
     = drop (length vs) (replicate 60 (0::real) @ vs)"
  by (simp add: foldl_deque_items deque_init_def)

lemma cpu_history_run:
  "cpu_history (foldl update_system_info self hs) = foldl deque_append (cpu_history self) (map cpu hs)"
  by (induction hs arbitrary: self) (simp_all add: update_system_info_def Let_def)

lemma ram_history_run:
  "ram_history (foldl update_system_info self hs)
     = foldl deque_append (ram_history self) (map ram_percent hs)"
  by (induction hs arbitrary: self) (simp_all add: update_system_info_def Let_def)

lemma net_down_pushed:
  "net_down_history (update_system_info self h)
     = deque_append (net_down_history self) (net_down (update_system_info self h))"
  by (simp add: update_system_info_def Let_def)

lemma net_up_pushed:
  "net_up_history (update_system_info self h)
     = deque_append (net_up_history self) (net_up (update_system_info self h))"
  by (simp add: update_system_info_def Let_def)

lemma net_down_history_run:
  "net_down_history (foldl update_system_info self hs)
     = foldl deque_append (net_down_history self) (map net_down (sampling_run self hs))"
  by (induction hs arbitrary: self) (simp_all add: net_down_pushed)

lemma net_up_history_run:
  "net_up_history (foldl update_system_info self hs)
     = foldl deque_append (net_up_history self) (map net_up (sampling_run self hs))"
  by (induction hs arbitrary: self) (simp_all add: net_up_pushed)

lemma sampling_run_length: "length (sampling_run self hs) = length hs"
  by (induction hs arbitrary: self) simp_all

lemma init_histories:
  "cpu_history (init_manager c t) = deque_init (replicate 60 0) 60"
  "ram_history (init_manager c t) = deque_init (replicate 60 0) 60"
  "net_down_history (init_manager c t) = deque_init (replicate 60 0) 60"
  "net_up_history (init_manager c t) = deque_init (replicate 60 0) 60"
  by (simp_all add: init_manager_def)

lemma last_window: "60 \<le> length vs \<Longrightarrow> drop (length vs) (replicate 60 (0::real) @ vs) = drop (length vs - 60) vs"
  by simp

lemma push_evicts:
  "length (items d) = maxlen d \<Longrightarrow> 0 < maxlen d \<Longrightarrow> items (deque_append d v) = tl (items d) @ [v]"
  by (cases "items d") (simp_all add: deque_append_def Let_def)


text \<open>
  C8. Each of the four history buffers starts with 60 zeros and holds exactly 60 values
  after any number of sampling calls; a push on a full buffer drops the oldest value
  and appends the new one; after at least 60 sampling calls each buffer holds the last
  60 values pushed into it, oldest first.
\<close>

theorem history_buffers_window:
  "(items (cpu_history (init_manager c0 t0)) = replicate 60 0
      \<and> items (ram_history (init_manager c0 t0)) = replicate 60 0
      \<and> items (net_down_history (init_manager c0 t0)) = replicate 60 0
      \<and> items (net_up_history (init_manager c0 t0)) = replicate 60 0)
   \<and> (length (items b) = maxlen b \<and> 0 < maxlen b \<longrightarrow>
        items (deque_append b v) = tl (items b) @ [v])
   \<and> (length (items (cpu_history (foldl update_system_info (init_manager c0 t0) hs))) = 60
      \<and> length (items (ram_history (foldl update_system_info (init_manager c0 t0) hs))) = 60
      \<and> length (items (net_down_history (foldl update_system_info (init_manager c0 t0) hs))) = 60
      \<and> length (items (net_up_history (foldl update_system_info (init_manager c0 t0) hs))) = 60)
   \<and> (60 \<le> length hs \<longrightarrow>
        items (cpu_history (foldl update_system_info (init_manager c0 t0) hs))
          = drop (length hs - 60) (map cpu hs)
      \<and> items (ram_history (foldl update_system_info (init_manager c0 t0) hs))
          = drop (length hs - 60) (map ram_percent hs)
      \<and> items (net_down_history (foldl update_system_info (init_manager c0 t0) hs))
          = drop (length hs - 60) (map net_down (sampling_run (init_manager c0 t0) hs))
      \<and> items (net_up_history (foldl update_system_info (init_manager c0 t0) hs))
          = drop (length hs - 60) (map net_up (sampling_run (init_manager c0 t0) hs)))"
proof -
  have start: "items (deque_init (replicate 60 (0::real)) 60) = replicate 60 0"
    by (simp add: deque_init_def)
  have lens: "length (items (foldl deque_append (deque_init (replicate 60 0) 60) vs)) = 60"
    for vs :: "real list"
    by (simp add: history_buffer_items)
  have full: "items (foldl deque_append (deque_init (replicate 60 0) 60) (map g xs))
      = drop (length xs - 60) (map g xs)" if "60 \<le> length xs"
    for g :: "'b \<Rightarrow> real" and xs
    using that by (simp add: history_buffer_items)
  show ?thesis
    by (simp add: cpu_history_run ram_history_run net_down_history_run net_up_history_run
        init_histories start lens full sampling_run_length push_evicts)
qed

theorem history_buffers_window_witness:
  "length (items \<lparr>items = [1, 2, 3::real], maxlen = 3\<rparr>) = maxlen \<lparr>items = [1, 2, 3::real], maxlen = 3\<rparr>
   \<and> items (deque_append \<lparr>items = [1, 2, 3::real], maxlen = 3\<rparr> 4) = [2, 3, 4]
   \<and> 60 \<le> length (map (\<lambda>k. \<lparr>cpu = real k, ram_percent = 50, disk_percent = 10, now = real k,
                  counters = \<lparr>bytes_recv = 0, bytes_sent = 0\<rparr>\<rparr>) [1..<63])
   \<and> items (cpu_history (foldl update_system_info (init_manager \<lparr>bytes_recv = 0, bytes_sent = 0\<rparr> 0)
        (map (\<lambda>k. \<lparr>cpu = real k, ram_percent = 50, disk_percent = 10, now = real k,
                  counters = \<lparr>bytes_recv = 0, bytes_sent = 0\<rparr>\<rparr>) [1..<63])))
      = map real (drop 2 [1..<63])"
  using history_buffers_window
    [of "\<lparr>bytes_recv = 0, bytes_sent = 0\<rparr>" 0 "\<lparr>items = [1, 2, 3::real], maxlen = 3\<rparr>" 4
        "map (\<lambda>k. \<lparr>cpu = real k, ram_percent = 50, disk_percent = 10, now = real k,
                  counters = \<lparr>bytes_recv = 0, bytes_sent = 0\<rparr>\<rparr>) [1..<63]"]
  by (simp add: drop_map o_def)

lemma elapsed_dt_pos: "0 < elapsed_dt n l"
  by (simp add: elapsed_dt_def)

lemma net_down_update:
  "net_down (update_system_info self h)
     = real_of_int (bytes_recv (counters h) - bytes_recv (last_net self))
         / elapsed_dt (now h) (last_net_time self) / 1024"
  by (simp add: update_system_info_def Let_def)

lemma net_up_update:
  "net_up (update_system_info self h)
     = real_of_int (bytes_sent (counters h) - bytes_sent (last_net self))
         / elapsed_dt (now h) (last_net_time self) / 1024"
  by (simp add: update_system_info_def Let_def)

lemma rate_sign: "0 < dt \<Longrightarrow> 0 \<le> real_of_int (a - b) / dt / 1024 \<longleftrightarrow> b \<le> a"
  by (simp add: zero_le_divide_iff)

text \<open>
  C2, as stated, fails: the rate is not clamped. With a stored counter of 2048 bytes,
  a current counter of 0 and one second elapsed, the down rate is -2.
\<close>

theorem net_rate_negative_counterexample:
  "net_down (update_system_info (init_manager \<lparr>bytes_recv = 2048, bytes_sent = 0\<rparr> 0)
      \<lparr>cpu = 0, ram_percent = 0, disk_percent = 0, now = 1,
       counters = \<lparr>bytes_recv = 0, bytes_sent = 0\<rparr>\<rparr>) = - 2"
  by (simp add: net_down_update init_manager_def elapsed_dt_def)

text \<open>
  C2, amended. After every sampling call a network rate is non-negative exactly when
  the current byte counter is not smaller than the stored previous one; with a
  smaller current counter the rate is negative.
\<close>

theorem net_rate_sign:
  "(0 \<le> net_down (update_system_info self h)
      \<longleftrightarrow> bytes_recv (last_net self) \<le> bytes_recv (counters h))
   \<and> (0 \<le> net_up (update_system_info self h)
      \<longleftrightarrow> bytes_sent (last_net self) \<le> bytes_sent (counters h))"
  by (simp only: net_down_update net_up_update rate_sign [OF elapsed_dt_pos] simp_thms)

theorem net_rate_sign_witness:
  "0 \<le> net_down (update_system_info (init_manager \<lparr>bytes_recv = 1000, bytes_sent = 900\<rparr> 0)
      \<lparr>cpu = 0, ram_percent = 0, disk_percent = 0, now = 2,
       counters = \<lparr>bytes_recv = 3048, bytes_sent = 100\<rparr>\<rparr>)
   \<and> \<not> 0 \<le> net_up (update_system_info (init_manager \<lparr>bytes_recv = 1000, bytes_sent = 900\<rparr> 0)
      \<lparr>cpu = 0, ram_percent = 0, disk_percent = 0, now = 2,
       counters = \<lparr>bytes_recv = 3048, bytes_sent = 100\<rparr>\<rparr>)"
  using net_rate_sign [of "init_manager \<lparr>bytes_recv = 1000, bytes_sent = 900\<rparr> 0"
      "\<lparr>cpu = 0, ram_percent = 0, disk_percent = 0, now = 2,
       counters = \<lparr>bytes_recv = 3048, bytes_sent = 100\<rparr>\<rparr>"]
  by (simp add: init_manager_def)

text \<open>
  C7, as stated, fails: the divisor is not max(elapsed, eps). For a delta of 5120 bytes
  the code divides by 1 at elapsed 0 (rate 5, so eps would have to be 1) and by 1/2 at
  elapsed 1/2 (rate 10), where the formula with eps = 1 gives 5. Rates are in units of
  1024 bytes per second, as in the claim's own example.
\<close>

theorem net_rate_floor_counterexample:
  "net_down (update_system_info (init_manager \<lparr>bytes_recv = 0, bytes_sent = 0\<rparr> 0)
      \<lparr>cpu = 0, ram_percent = 0, disk_percent = 0, now = 0,
       counters = \<lparr>bytes_recv = 5120, bytes_sent = 0\<rparr>\<rparr>) = 5
   \<and> net_down (update_system_info (init_manager \<lparr>bytes_recv = 0, bytes_sent = 0\<rparr> 0)
      \<lparr>cpu = 0, ram_percent = 0, disk_percent = 0, now = 1 / 2,
       counters = \<lparr>bytes_recv = 5120, bytes_sent = 0\<rparr>\<rparr>) = 10
   \<and> spec_rate 1 5120 0 0 = 5
   \<and> spec_rate 1 5120 0 (1 / 2) = 5"
  by (simp add: net_down_update init_manager_def elapsed_dt_def spec_rate_def)

text \<open>No positive floor makes the formula agree with the code on every call.\<close>

lemma no_elapsed_floor_fits:
  "\<not> (\<exists>eps>0. \<forall>self h. net_down (update_system_info self h)
        = spec_rate eps (bytes_recv (counters h)) (bytes_recv (last_net self))
            (now h - last_net_time self))"
proof
  assume "\<exists>eps>0. \<forall>self h. net_down (update_system_info self h)
        = spec_rate eps (bytes_recv (counters h)) (bytes_recv (last_net self))
            (now h - last_net_time self)"
  then obtain eps where pos: "0 < eps"
    and fits: "\<And>self h. net_down (update_system_info self h)
        = spec_rate eps (bytes_recv (counters h)) (bytes_recv (last_net self))
            (now h - last_net_time self)"
    by blast
  define m where "m = init_manager \<lparr>bytes_recv = 0, bytes_sent = 0\<rparr> 0"
  have "5 = 5120 / max 0 eps / 1024"
    using fits [of m "\<lparr>cpu = 0, ram_percent = 0, disk_percent = 0, now = 0,
       counters = \<lparr>bytes_recv = 5120, bytes_sent = 0\<rparr>\<rparr>"]
    by (simp add: net_down_update m_def init_manager_def elapsed_dt_def spec_rate_def)
  with pos have "eps = 1"
    by (simp add: field_simps)
  moreover have "10 = 5120 / max (1 / 2) eps / 1024"
    using fits [of m "\<lparr>cpu = 0, ram_percent = 0, disk_percent = 0, now = 1 / 2,
       counters = \<lparr>bytes_recv = 5120, bytes_sent = 0\<rparr>\<rparr>"]
    by (simp add: net_down_update m_def init_manager_def elapsed_dt_def spec_rate_def)
  ultimately show False
    by simp
qed

text \<open>
  C7, amended. After every sampling call each rate is the counter difference divided by
  d and by 1024, where d is the elapsed time when that is positive and 1 otherwise; d is
  positive, so nothing is divided by zero; the rate equals the formula with
  max(elapsed, 1) whenever the elapsed time is at most 0 or at least 1; and a
  bytes_recv delta of 5120 over an elapsed time of 1 gives a down rate of 5.
\<close>

theorem net_rate_formula:
  "net_down (update_system_info self h)
     = real_of_int (bytes_recv (counters h) - bytes_recv (last_net self))
         / (if now h - last_net_time self > 0 then now h - last_net_time self else 1) / 1024
   \<and> net_up (update_system_info self h)
     = real_of_int (bytes_sent (counters h) - bytes_sent (last_net self))
         / (if now h - last_net_time self > 0 then now h - last_net_time self else 1) / 1024
   \<and> 0 < (if now h - last_net_time self > 0 then now h - last_net_time self else 1)
   \<and> (now h - last_net_time self \<le> 0 \<or> 1 \<le> now h - last_net_time self \<longrightarrow>
        net_down (update_system_info self h)
          = spec_rate 1 (bytes_recv (counters h)) (bytes_recv (last_net self))
              (now h - last_net_time self)
        \<and> net_up (update_system_info self h)
          = spec_rate 1 (bytes_sent (counters h)) (bytes_sent (last_net self))
              (now h - last_net_time self))
   \<and> (bytes_recv (counters h) - bytes_recv (last_net self) = 5120
        \<and> now h - last_net_time self = 1 \<longrightarrow> net_down (update_system_info self h) = 5)"
  by (auto simp: net_down_update net_up_update elapsed_dt_def spec_rate_def max_def)

theorem net_rate_formula_witness:
  "now \<lparr>cpu = 0, ram_percent = 0, disk_percent = 0, now = 8,
       counters = \<lparr>bytes_recv = 6120, bytes_sent = 0\<rparr>\<rparr>
     - last_net_time (init_manager \<lparr>bytes_recv = 1000, bytes_sent = 0\<rparr> 7) = 1
   \<and> net_down (update_system_info (init_manager \<lparr>bytes_recv = 1000, bytes_sent = 0\<rparr> 7)
      \<lparr>cpu = 0, ram_percent = 0, disk_percent = 0, now = 8,
       counters = \<lparr>bytes_recv = 6120, bytes_sent = 0\<rparr>\<rparr>) = 5
   \<and> net_down (update_system_info (init_manager \<lparr>bytes_recv = 1000, bytes_sent = 0\<rparr> 7)
      \<lparr>cpu = 0, ram_percent = 0, disk_percent = 0, now = 8,
       counters = \<lparr>bytes_recv = 6120, bytes_sent = 0\<rparr>\<rparr>) = spec_rate 1 6120 1000 1"
  using net_rate_formula [of "init_manager \<lparr>bytes_recv = 1000, bytes_sent = 0\<rparr> 7"
      "\<lparr>cpu = 0, ram_percent = 0, disk_percent = 0, now = 8,
       counters = \<lparr>bytes_recv = 6120, bytes_sent = 0\<rparr>\<rparr>"]
  by (simp add: init_manager_def)

end
